theory Spec2Isabelle
  imports Main
begin

section \<open>Python values used by \<open>Week2/BERT/dataset.py\<close>\<close>

text \<open>
  The exceptions that the statements of \<open>IMDBBertDataset\<close> can raise.
  \<open>ConfigurationError\<close> and \<open>DataError\<close> are the two error classes that the
  documentation of the pipeline names; no statement of the source raises them.
\<close>

datatype error =
    ValueError
  | IndexError
  | AttributeError
  | TypeError
  | RuntimeError
  | ConfigurationError
  | DataError

subsection \<open>Strings\<close>

text \<open>
  A Python \<open>str\<close> is modelled as a \<open>string\<close>, each \<open>char\<close> read as the code point
  of the same number (the Latin-1 range U+0000 .. U+00FF).
  \<open>is_space\<close> is \<open>str.isspace\<close> on one character of that range.
\<close>

definition is_space :: "char \<Rightarrow> bool" where
  "is_space c = ((of_char c :: nat) \<in> set [9, 10, 11, 12, 13, 28, 29, 30, 31, 32, 133, 160])"

text \<open>\<open>s.split()\<close>: the maximal runs of non-whitespace characters, in order.\<close>

fun split_ws :: "string \<Rightarrow> string \<Rightarrow> string list" where
  "split_ws w [] = (if w = [] then [] else [rev w])"
| "split_ws w (c # cs) =
     (if is_space c then (if w = [] then split_ws [] cs else rev w # split_ws [] cs)
      else split_ws (c # w) cs)"

definition py_split :: "string \<Rightarrow> string list" where
  "py_split s = split_ws [] s"

text \<open>
  \<open>review.split('. ')\<close>: cut at every occurrence of the two characters full stop,
  space, scanning from the left; the result is never empty.
\<close>

fun split_sep :: "string \<Rightarrow> string \<Rightarrow> string list" where
  "split_sep w [] = [rev w]"
| "split_sep w [c] = [rev (c # w)]"
| "split_sep w (c # d # cs) =
     (if c = CHR ''.'' \<and> d = CHR '' '' then rev w # split_sep [] cs
      else split_sep (c # w) (d # cs))"

definition split_sentences :: "string \<Rightarrow> string list" where
  "split_sentences review = split_sep [] review"

text \<open>\<open>str.lower\<close> on the Latin-1 range.\<close>

definition lower_char :: "char \<Rightarrow> char" where
  "lower_char c =
     (let n = (of_char c :: nat) in
      if (65 \<le> n \<and> n \<le> 90) \<or> (192 \<le> n \<and> n \<le> 222 \<and> n \<noteq> 215) then char_of (n + 32) else c)"

definition py_lower :: "string \<Rightarrow> string" where
  "py_lower s = map lower_char s"

subsection \<open>The tokenizer \<open>get_tokenizer('basic_english')\<close>\<close>

text \<open>
  torchtext's \<open>basic_english\<close> tokenizer lower-cases the line, applies twelve regular
  expression substitutions in a fixed order and splits the result on whitespace.
  Eleven of the patterns match one fixed string; the last one, \<open>\s+\<close>, matches a
  maximal run of whitespace.
\<close>

definition re_sub_char :: "char \<Rightarrow> string \<Rightarrow> string \<Rightarrow> string" where
  "re_sub_char p r s = concat (map (\<lambda>c. if c = p then r else [c]) s)"

fun sub_br :: "string \<Rightarrow> string" where
  "sub_br [] = []"
| "sub_br (c # cs) =
     (if take 6 (c # cs) = ''<br />'' then CHR '' '' # sub_br (drop 5 cs)
      else c # sub_br cs)"

function sub_spaces :: "string \<Rightarrow> string" where
  "sub_spaces [] = []"
| "sub_spaces (c # cs) =
     (if is_space c then CHR '' '' # sub_spaces (dropWhile is_space cs)
      else c # sub_spaces cs)"
  by pat_completeness auto
termination
  by (relation "measure length") (auto simp: less_Suc_eq_le length_dropWhile_le)

definition basic_english_normalize :: "string \<Rightarrow> string" where
  "basic_english_normalize line =
     sub_spaces
       (re_sub_char CHR '':'' '' ''
       (re_sub_char CHR '';'' '' ''
       (re_sub_char CHR ''?'' '' ? ''
       (re_sub_char CHR ''!'' '' ! ''
       (re_sub_char CHR '')'' '' ) ''
       (re_sub_char CHR ''('' '' ( ''
       (re_sub_char CHR '','' '' , ''
       (sub_br
       (re_sub_char CHR ''.'' '' . ''
       (re_sub_char CHR 0x22 []
       (re_sub_char CHR 0x27 [CHR '' '', CHR 0x27, CHR '' '', CHR '' '']
       (py_lower line))))))))))))"

definition tokenizer :: "string \<Rightarrow> string list" where
  "tokenizer line = py_split (basic_english_normalize line)"

subsection \<open>\<open>collections.Counter\<close>\<close>

text \<open>
  A \<open>Counter\<close> is a dictionary from elements to counts that keeps its keys in the order
  of their first insertion: an association list. \<open>Counter_update c iterable\<close> is
  \<open>c.update(iterable)\<close>, which adds one to the count of each element in turn.
\<close>

type_synonym Counter = "(string \<times> nat) list"

fun Counter_incr :: "string \<Rightarrow> Counter \<Rightarrow> Counter" where
  "Counter_incr elem [] = [(elem, 1)]"
| "Counter_incr elem ((k, n) # kvs) =
     (if k = elem then (k, n + 1) # kvs else (k, n) # Counter_incr elem kvs)"

definition Counter_update :: "Counter \<Rightarrow> string list \<Rightarrow> Counter" where
  "Counter_update c iterable = foldl (\<lambda>acc elem. Counter_incr elem acc) c iterable"

subsection \<open>\<open>torchtext.vocab\<close>\<close>

text \<open>
  A torchtext \<open>Vocab\<close> holds the list of its tokens (the index of a token is its
  position) and an optional default index. The factory \<open>vocab(ordered_dict, min_freq)\<close>
  keeps, in the order of the dictionary, the tokens whose count is at least
  \<open>min_freq\<close>. \<open>insert_token\<close> raises RuntimeError when the index is beyond the end
  or the token is already there, and shifts the later tokens up otherwise. Looking a
  token up gives its index, the default index when it is absent and one is set, and
  raises RuntimeError otherwise; \<open>lookup_token\<close> raises RuntimeError out of range.
\<close>

record Vocab =
  itos :: "string list"
  default_index :: "int option"

definition torchtext_vocab :: "Counter \<Rightarrow> nat \<Rightarrow> Vocab" where
  "torchtext_vocab ordered_dict min_freq =
     \<lparr>itos = map fst (filter (\<lambda>item. min_freq \<le> snd item) ordered_dict),
      default_index = None\<rparr>"

definition insert_token :: "Vocab \<Rightarrow> string \<Rightarrow> nat \<Rightarrow> error + Vocab" where
  "insert_token v token index =
     (if length (itos v) < index then Inl RuntimeError
      else if token \<in> set (itos v) then Inl RuntimeError
      else Inr (v\<lparr>itos := take index (itos v) @ token # drop index (itos v)\<rparr>))"

definition set_default_index :: "Vocab \<Rightarrow> int \<Rightarrow> Vocab" where
  "set_default_index v index = v\<lparr>default_index := Some index\<rparr>"

fun index_of :: "string \<Rightarrow> string list \<Rightarrow> nat option" where
  "index_of token [] = None"
| "index_of token (t # ts) =
     (if t = token then Some 0 else map_option Suc (index_of token ts))"

definition vocab_getitem :: "Vocab \<Rightarrow> string \<Rightarrow> error + int" where
  "vocab_getitem v token =
     (case index_of token (itos v) of
        Some i \<Rightarrow> Inr (int i)
      | None \<Rightarrow> (case default_index v of Some d \<Rightarrow> Inr d | None \<Rightarrow> Inl RuntimeError))"

definition lookup_token :: "Vocab \<Rightarrow> int \<Rightarrow> error + string" where
  "lookup_token v index =
     (if 0 \<le> index \<and> index < int (length (itos v)) then Inr (itos v ! nat index)
      else Inl RuntimeError)"

subsection \<open>The module \<open>random\<close>\<close>

text \<open>
  The state of the process-wide generator of the module \<open>random\<close>: the sequence of raw
  numbers it will produce and how many have been consumed. \<open>random.randint(a, b)\<close>
  raises ValueError on an empty range and otherwise maps the next raw number into
  \<open>a .. b\<close>. The module has no attribute \<open>randin\<close>: evaluating \<open>random.randin\<close>
  raises AttributeError before any argument is looked at.
\<close>

record rng =
  draws :: "nat \<Rightarrow> nat"
  pos :: nat

definition random_randint :: "int \<Rightarrow> int \<Rightarrow> rng \<Rightarrow> (error + int) \<times> rng" where
  "random_randint a b g =
     (if b < a then (Inl ValueError, g)
      else (Inr (a + int (draws g (pos g) mod nat (b - a + 1))), g\<lparr>pos := Suc (pos g)\<rparr>))"

definition random_randin :: "int \<Rightarrow> int \<Rightarrow> rng \<Rightarrow> (error + int) \<times> rng" where
  "random_randin a b g = (Inl AttributeError, g)"

subsection \<open>Calls, indexing, slices, numpy and pandas\<close>

text \<open>
  \<open>py_call arity nargs body\<close>: a call that passes \<open>nargs\<close> positional arguments to a
  method declaring \<open>arity\<close> parameters besides \<open>self\<close>, none with a default value.
\<close>

definition py_call :: "nat \<Rightarrow> nat \<Rightarrow> 'a \<Rightarrow> error + 'a" where
  "py_call arity nargs body = (if nargs = arity then Inr body else Inl TypeError)"

text \<open>\<open>xs[i]\<close>: an index below zero counts from the end of the list.\<close>

definition py_getitem :: "'a list \<Rightarrow> int \<Rightarrow> error + 'a" where
  "py_getitem xs i =
     (if 0 \<le> i \<and> i < int (length xs) then Inr (xs ! nat i)
      else if i < 0 \<and> - int (length xs) \<le> i then Inr (xs ! nat (int (length xs) + i))
      else Inl IndexError)"

definition py_slice :: "int option \<Rightarrow> int option \<Rightarrow> 'a list \<Rightarrow> 'a list" where
  "py_slice lo hi xs =
     (let n = int (length xs);
          clamp = (\<lambda>i. if i < 0 then max 0 (n + i) else min n i);
          a = (case lo of None \<Rightarrow> 0 | Some i \<Rightarrow> clamp i);
          b = (case hi of None \<Rightarrow> n | Some i \<Rightarrow> clamp i)
      in take (nat (b - a)) (drop (nat a) xs))"

text \<open>
  Double precision. A finite double is \<open>m * 2 ^ e\<close> for integers \<open>m\<close> and \<open>e\<close> with
  \<open>\<bar>m\<bar> \<le> 2 ^ 53\<close>, written as the pair \<open>(m, e)\<close>; the range of the exponent is
  not modelled (no number here comes near its ends). \<open>fl m sticky e\<close> rounds
  \<open>m * 2 ^ e\<close> to the nearest double, ties to the even mantissa; \<open>sticky\<close> says that
  the exact magnitude lies strictly between \<open>\<bar>m\<bar>\<close> and \<open>\<bar>m\<bar> + 1\<close> units, as the
  quotient of a division does when it leaves a remainder.
\<close>

function bit_length :: "int \<Rightarrow> nat" where
  "bit_length n = (if n \<le> 0 then 0 else Suc (bit_length (n div 2)))"
  by pat_completeness auto
termination
  by (relation "measure nat") auto

declare bit_length.simps [simp del]

type_synonym double = "int \<times> int"

definition round_mag :: "int \<Rightarrow> bool \<Rightarrow> int \<times> nat" where
  "round_mag m sticky =
     (let len = bit_length m in
      if len \<le> 53 then (m, 0)
      else
        (let s = len - 53; q = m div 2 ^ s; low = m mod 2 ^ s; half = 2 ^ (s - 1);
             up = (half < low \<or> (low = half \<and> (sticky \<or> odd q)))
         in (if up then q + 1 else q, s)))"

definition fl :: "int \<Rightarrow> bool \<Rightarrow> int \<Rightarrow> double" where
  "fl m sticky e = (case round_mag \<bar>m\<bar> sticky of (q, s) \<Rightarrow> (sgn m * q, e + int s))"

definition d_of_int :: "int \<Rightarrow> double" where
  "d_of_int i = fl i False 0"

definition d_mul :: "double \<Rightarrow> double \<Rightarrow> double" where
  "d_mul x y = fl (fst x * fst y) False (snd x + snd y)"

definition d_add :: "double \<Rightarrow> double \<Rightarrow> double" where
  "d_add x y =
     (let e = min (snd x) (snd y)
      in fl (fst x * 2 ^ nat (snd x - e) + fst y * 2 ^ nat (snd y - e)) False e)"

definition d_sub :: "double \<Rightarrow> double \<Rightarrow> double" where
  "d_sub x y = d_add x (- fst y, snd y)"

text \<open>\<open>np.true_divide(a, b)\<close> for integers \<open>0 \<le> a\<close> and \<open>0 < b\<close>.\<close>

definition d_true_divide :: "int \<Rightarrow> int \<Rightarrow> double" where
  "d_true_divide a b =
     (let k = 55 + bit_length b; num = a * 2 ^ k
      in fl (num div b) (0 < num mod b) (- int k))"

definition d_le :: "double \<Rightarrow> double \<Rightarrow> bool" where
  "d_le x y =
     (let e = min (snd x) (snd y)
      in fst x * 2 ^ nat (snd x - e) \<le> fst y * 2 ^ nat (snd y - e))"

definition d_floor :: "double \<Rightarrow> int" where
  "d_floor x =
     (if 0 \<le> snd x then fst x * 2 ^ nat (snd x) else fst x div 2 ^ nat (- snd x))"

text \<open>\<open>int(x)\<close> on a double truncates towards zero.\<close>

definition d_trunc :: "double \<Rightarrow> int" where
  "d_trunc x = (if 0 \<le> fst x then d_floor x else - d_floor (- fst x, snd x))"

text \<open>
  \<open>int(np.percentile(arr, q))\<close> on a one-dimensional array of integers, as numpy 1.22
  and later compute it with the default method \<open>linear\<close>. A percentile outside
  \<open>0 .. 100\<close> raises ValueError, and an empty array raises IndexError (index -1 is out
  of bounds). Otherwise the quantile is \<open>q / 100\<close> and the virtual index is
  \<open>(n - 1) * quantile\<close>, both in double precision; at or beyond the last index the
  result is the largest element, and below it numpy takes the order statistics \<open>a\<close>
  and \<open>b\<close> around the virtual index, its fractional part \<open>gamma\<close>, and interpolates:
  \<open>a + (b - a) * gamma\<close>, replaced by \<open>b - (b - a) * (1 - gamma)\<close> where
  \<open>gamma \<ge> 0.5\<close>, each operation rounded to a double.
\<close>

definition np_percentile_int :: "int list \<Rightarrow> nat \<Rightarrow> error + int" where
  "np_percentile_int arr q =
     (if 100 < q then Inl ValueError
      else if arr = [] then Inl IndexError
      else
        (let xs = sort arr; n = length xs;
             quantile = d_true_divide (int q) 100;
             virtual_index = d_mul (d_of_int (int n - 1)) quantile
         in if d_le (d_of_int (int n - 1)) virtual_index
            then Inr (d_trunc (d_of_int (xs ! (n - 1))))
            else
              (let previous_index = nat (d_floor virtual_index);
                   a = xs ! previous_index;
                   b = xs ! (previous_index + 1);
                   gamma = d_sub virtual_index (d_of_int (int previous_index));
                   diff_b_a = d_of_int (b - a);
                   lerp =
                     (if d_le (1, - 1) gamma
                      then d_sub (d_of_int b) (d_mul diff_b_a (d_sub (1, 0) gamma))
                      else d_add (d_of_int a) (d_mul diff_b_a gamma))
               in Inr (d_trunc lerp))))"

text \<open>
  \<open>pd.DataFrame(data, columns=columns)\<close> on a list of rows of one common length: the
  rows must be as long as the list of column names, unless there is no row at all.
\<close>

record DataFrame =
  df_columns :: "string list"
  df_rows :: "int list list"

definition pd_DataFrame :: "int list list \<Rightarrow> string list \<Rightarrow> error + DataFrame" where
  "pd_DataFrame data cols =
     (if list_all (\<lambda>row. length row = length cols) data
      then Inr \<lparr>df_columns = cols, df_rows = data\<rparr>
      else Inl ValueError)"

section \<open>The class \<open>IMDBBertDataset\<close>\<close>

definition CLS :: string where "CLS = ''[CLS]''"
definition PAD :: string where "PAD = ''[PAD]''"
definition SEP :: string where "SEP = ''[SEP]''"
definition MASK :: string where "MASK = ''[MASK]''"
definition UNK :: string where "UNK = ''[UNK]''"

definition MASKED_INDICES_COLUMN :: string where "MASKED_INDICES_COLUMN = ''masked_indices''"
definition TARGET_COLUMN :: string where "TARGET_COLUMN = ''indices''"
definition NSP_TARGET_COLUMN :: string where "NSP_TARGET_COLUMN = ''is_next''"
definition TOKEN_MASK_COLUMN :: string where "TOKEN_MASK_COLUMN = ''token_mask''"

definition OPTIMAL_LENGTH_PERCENTILE :: nat where "OPTIMAL_LENGTH_PERCENTILE = 70"

text \<open>The attributes of an instance (\<open>self\<close>); \<open>self.tokenizer\<close> is always \<^term>\<open>tokenizer\<close>.\<close>

record IMDBBertDataset =
  ds :: "string list"
  counter :: Counter
  vocab :: "Vocab option"
  optimal_sentence_length :: "int option"
  should_include_text :: bool
  columns :: "string list"
  df :: "DataFrame option"

subsection \<open>\<open>_update_length\<close> and \<open>_find_optimal_sentence_length\<close>\<close>

text \<open>
  \<open>_update_length\<close> computes the word count of every sentence and returns the
  concatenation \<open>lengths + sentences_lengths\<close>, a new list: the list it was given is
  not changed.
\<close>

definition update_length :: "string list \<Rightarrow> int list \<Rightarrow> int list" where
  "update_length sentences lengths =
     (let sentences_lengths = map (\<lambda>sentence. int (length (py_split sentence))) sentences
      in lengths @ sentences_lengths)"

definition find_optimal_sentence_length :: "int list \<Rightarrow> error + int" where
  "find_optimal_sentence_length lengths =
     (let arr = lengths in np_percentile_int arr OPTIMAL_LENGTH_PERCENTILE)"

subsection \<open>\<open>_fill_vocab\<close>\<close>

text \<open>
  The method assigns \<open>self.vocab\<close> first and then changes that object in place, so an
  exception of one of the insertions leaves the vocabulary as built so far.
\<close>

definition fill_vocab :: "IMDBBertDataset \<Rightarrow> (error + unit) \<times> IMDBBertDataset" where
  "fill_vocab self =
     (let v = torchtext_vocab (counter self) 2 in
      case insert_token v CLS 0 of
        Inl e \<Rightarrow> (Inl e, self\<lparr>vocab := Some v\<rparr>)
      | Inr v0 \<Rightarrow>
     (case insert_token v0 PAD 1 of
        Inl e \<Rightarrow> (Inl e, self\<lparr>vocab := Some v0\<rparr>)
      | Inr v1 \<Rightarrow>
     (case insert_token v1 MASK 2 of
        Inl e \<Rightarrow> (Inl e, self\<lparr>vocab := Some v1\<rparr>)
      | Inr v2 \<Rightarrow>
     (case insert_token v2 SEP 3 of
        Inl e \<Rightarrow> (Inl e, self\<lparr>vocab := Some v2\<rparr>)
      | Inr v3 \<Rightarrow>
     (case insert_token v3 UNK 4 of
        Inl e \<Rightarrow> (Inl e, self\<lparr>vocab := Some v3\<rparr>)
      | Inr v4 \<Rightarrow> (Inr (), self\<lparr>vocab := Some (set_default_index v4 4)\<rparr>))))))"

subsection \<open>\<open>_select_false_nsp_sentences\<close>\<close>

text \<open>
  The \<open>while\<close> loop of the method: as long as the second index is the successor of the
  first, draw the second index again. The loop has no bound, so it is a partial
  function: \<open>None\<close> is the run that never leaves the loop.
\<close>

partial_function (option) nsp_while ::
  "int \<Rightarrow> int \<Rightarrow> int \<Rightarrow> rng \<Rightarrow> ((error + int) \<times> rng) option" where
  "nsp_while sentence_len sentence_idx next_sentence_idx g =
     (if next_sentence_idx = sentence_idx + 1 then
        (case random_randint 0 (sentence_len - 1) g of
           (Inl e, g') \<Rightarrow> Some (Inl e, g')
         | (Inr drawn, g') \<Rightarrow> nsp_while sentence_len sentence_idx drawn g')
      else Some (Inr next_sentence_idx, g))"

declare nsp_while.simps [code]

text \<open>
  The first line draws \<open>sentence_idx\<close> with \<open>random.randint\<close> and then evaluates
  \<open>random.randin\<close> for \<open>next_sentence_idx\<close>.
\<close>

definition select_false_nsp_sentences ::
  "string list \<Rightarrow> rng \<Rightarrow> ((error + string \<times> string) \<times> rng) option" where
  "select_false_nsp_sentences sentences g =
     (let sentence_len = int (length sentences) in
      case random_randint 0 (sentence_len - 1) g of
        (Inl e, g1) \<Rightarrow> Some (Inl e, g1)
      | (Inr sentence_idx, g1) \<Rightarrow>
     (case random_randin 0 (sentence_len - 1) g1 of
        (Inl e, g2) \<Rightarrow> Some (Inl e, g2)
      | (Inr next_sentence_idx, g2) \<Rightarrow>
     (case nsp_while sentence_len sentence_idx next_sentence_idx g2 of
        None \<Rightarrow> None
      | Some (Inl e, g3) \<Rightarrow> Some (Inl e, g3)
      | Some (Inr next_sentence_idx, g3) \<Rightarrow>
     (case py_getitem sentences sentence_idx of
        Inl e \<Rightarrow> Some (Inl e, g3)
      | Inr first \<Rightarrow>
     (case py_getitem sentences next_sentence_idx of
        Inl e \<Rightarrow> Some (Inl e, g3)
      | Inr second \<Rightarrow> Some (Inr (first, second), g3))))))"

subsection \<open>\<open>_create_item\<close>\<close>

text \<open>
  The method declares no parameter besides \<open>self\<close> and returns the list \<open>[0,0,0]\<close>.
  Both calls in \<open>prepare_dataset\<close> pass three positional arguments: two token lists
  and the label.
\<close>

definition create_item :: "int list" where
  "create_item = [0, 0, 0]"

definition call_create_item :: "string list \<Rightarrow> string list \<Rightarrow> int \<Rightarrow> error + int list" where
  "call_create_item first second is_next = py_call 0 3 create_item"

subsection \<open>\<open>prepare_dataset\<close>\<close>

text \<open>
  The first loop (lines 77 to 80): every review is split into sentences, which are
  appended to \<open>sentences\<close>; \<open>_update_length\<close> is called on them and its result is
  dropped, so \<open>sentence_lens\<close> goes round the loop unchanged.
\<close>

fun split_loop :: "string list \<Rightarrow> string list \<Rightarrow> int list \<Rightarrow> string list \<times> int list" where
  "split_loop [] sentences sentence_lens = (sentences, sentence_lens)"
| "split_loop (review # rest) sentences sentence_lens =
     (let review_sentences = split_sentences review;
          sentences = sentences @ review_sentences;
          dropped = update_length review_sentences sentence_lens
      in split_loop rest sentences sentence_lens)"

text \<open>The second loop (lines 84 to 86) counts the tokens of every sentence.\<close>

definition count_tokens :: "Counter \<Rightarrow> string list \<Rightarrow> Counter" where
  "count_tokens c sentences =
     foldl (\<lambda>acc sentence. Counter_update acc (tokenizer sentence)) c sentences"

text \<open>
  The inner loop of the third pass (lines 94 to 102), over the adjacent sentences of
  one review: a pair with label 1, then a pair with label 0 from
  \<open>_select_false_nsp_sentences\<close>, both appended to \<open>nsp\<close>.
\<close>

fun pair_loop ::
  "string list \<Rightarrow> string list \<Rightarrow> int list list \<Rightarrow> rng \<Rightarrow> ((error + int list list) \<times> rng) option" where
  "pair_loop sentences (s1 # s2 # rest) nsp g =
     (case call_create_item (tokenizer s1) (tokenizer s2) 1 of
        Inl e \<Rightarrow> Some (Inl e, g)
      | Inr true_item \<Rightarrow>
     (case select_false_nsp_sentences sentences g of
        None \<Rightarrow> None
      | Some (Inl e, g') \<Rightarrow> Some (Inl e, g')
      | Some (Inr (first, second), g') \<Rightarrow>
     (case call_create_item (tokenizer first) (tokenizer second) 0 of
        Inl e \<Rightarrow> Some (Inl e, g')
      | Inr false_item \<Rightarrow> pair_loop sentences (s2 # rest) (nsp @ [true_item, false_item]) g')))"
| "pair_loop sentences review_sentences nsp g = Some (Inr nsp, g)"

text \<open>The outer loop of the third pass (lines 91 to 93), over the reviews.\<close>

fun review_loop ::
  "string list \<Rightarrow> string list \<Rightarrow> int list list \<Rightarrow> rng \<Rightarrow> ((error + int list list) \<times> rng) option" where
  "review_loop sentences [] nsp g = Some (Inr nsp, g)"
| "review_loop sentences (review # rest) nsp g =
     (let review_sentences = split_sentences review in
      if 1 < length review_sentences then
        (case pair_loop sentences review_sentences nsp g of
           None \<Rightarrow> None
         | Some (Inl e, g') \<Rightarrow> Some (Inl e, g')
         | Some (Inr nsp', g') \<Rightarrow> review_loop sentences rest nsp' g')
      else review_loop sentences rest nsp g)"

text \<open>
  The whole method. It returns the data frame or the exception that ended it, the
  instance as the method left it, and the state of the random generator.
\<close>

definition prepare_dataset ::
  "IMDBBertDataset \<Rightarrow> rng \<Rightarrow> ((error + DataFrame) \<times> IMDBBertDataset \<times> rng) option" where
  "prepare_dataset self g =
     (case split_loop (ds self) [] [] of (sentences, sentence_lens) \<Rightarrow>
      case find_optimal_sentence_length sentence_lens of
        Inl e \<Rightarrow> Some (Inl e, self, g)
      | Inr n \<Rightarrow>
     (let self1 = self\<lparr>optimal_sentence_length := Some n\<rparr>;
          self2 = self1\<lparr>counter := count_tokens (counter self1) sentences\<rparr>
      in case fill_vocab self2 of
        (Inl e, self3) \<Rightarrow> Some (Inl e, self3, g)
      | (Inr u, self3) \<Rightarrow>
     (case review_loop sentences (ds self3) [] g of
        None \<Rightarrow> None
      | Some (Inl e, g') \<Rightarrow> Some (Inl e, self3, g')
      | Some (Inr nsp, g') \<Rightarrow>
     (case pd_DataFrame nsp (columns self3) of
        Inl e \<Rightarrow> Some (Inl e, self3, g')
      | Inr frame \<Rightarrow> Some (Inr frame, self3, g')))))"

subsection \<open>\<open>__init__\<close>\<close>

text \<open>
  \<open>reviews\<close> is the column \<open>review\<close> of the file at \<open>path\<close>. The constructor takes the
  slice, sets the attributes and calls \<open>prepare_dataset\<close>; it has no parameter for a
  seed or a random source.
\<close>

definition init_self ::
  "string list \<Rightarrow> int option \<Rightarrow> int option \<Rightarrow> bool \<Rightarrow> IMDBBertDataset" where
  "init_self reviews ds_from ds_to include_text =
     \<lparr>ds = (if ds_from = None \<and> ds_to = None then reviews else py_slice ds_from ds_to reviews),
      counter = [],
      vocab = None,
      optimal_sentence_length = None,
      should_include_text = include_text,
      columns =
        (if include_text
         then [''masked_sentence'', MASKED_INDICES_COLUMN, ''sentence'', TARGET_COLUMN,
               TOKEN_MASK_COLUMN, NSP_TARGET_COLUMN]
         else [MASKED_INDICES_COLUMN, TARGET_COLUMN, TOKEN_MASK_COLUMN, NSP_TARGET_COLUMN]),
      df = None\<rparr>"

definition init ::
  "string list \<Rightarrow> int option \<Rightarrow> int option \<Rightarrow> bool \<Rightarrow> rng \<Rightarrow>
   ((error + IMDBBertDataset) \<times> rng) option" where
  "init reviews ds_from ds_to include_text g =
     (case prepare_dataset (init_self reviews ds_from ds_to include_text) g of
        None \<Rightarrow> None
      | Some (Inl e, self, g') \<Rightarrow> Some (Inl e, g')
      | Some (Inr frame, self, g') \<Rightarrow> Some (Inr (self\<lparr>df := Some frame\<rparr>), g'))"

section \<open>Notions used in the statements\<close>

text \<open>
  \<open>specials\<close> is the list that the comment in \<open>_fill_vocab\<close> names. The sentences
  of a corpus are what the first loop of \<open>prepare_dataset\<close> collects, and its counter
  is what the second loop leaves in \<open>self.counter\<close>, which \<open>__init__\<close> creates empty.
  \<open>ascii_upper\<close> holds of the capital letters A to Z.
\<close>

definition specials :: "string list" where
  "specials = [CLS, PAD, MASK, SEP, UNK]"

definition corpus_sentences :: "string list \<Rightarrow> string list" where
  "corpus_sentences reviews = fst (split_loop reviews [] [])"

definition corpus_counter :: "string list \<Rightarrow> Counter" where
  "corpus_counter reviews = count_tokens [] (corpus_sentences reviews)"

definition ascii_upper :: "char \<Rightarrow> bool" where
  "ascii_upper c = (65 \<le> (of_char c :: nat) \<and> (of_char c :: nat) \<le> 90)"

text \<open>A state of the random generator whose raw numbers are all \<open>k\<close>.\<close>

definition const_rng :: "nat \<Rightarrow> rng" where
  "const_rng k = \<lparr>draws = (\<lambda>i. k), pos = 0\<rparr>"

text \<open>
  Two states of the generator have the same draws when they produce the same sequence
  of raw numbers from where they stand, as two generators seeded alike do.
  \<open>ramp_rng start p\<close> has the raw numbers \<open>start, start + 1, ...\<close> and has consumed
  \<open>p\<close> of them.
\<close>

definition same_draws :: "rng \<Rightarrow> rng \<Rightarrow> bool" where
  "same_draws g1 g2 = (\<forall>i. draws g1 (pos g1 + i) = draws g2 (pos g2 + i))"

definition ramp_rng :: "nat \<Rightarrow> nat \<Rightarrow> rng" where
  "ramp_rng start p = \<lparr>draws = (\<lambda>i. start + i), pos = p\<rparr>"

section \<open>The tokenizer never produces a special token\<close>


lemma lower_char_not_upper: "\<not> ascii_upper (lower_char c)"
  by (auto simp: ascii_upper_def lower_char_def Let_def)

lemma py_lower_no_upper: "\<forall>c\<in>set (py_lower s). \<not> ascii_upper c"
  by (auto simp: py_lower_def lower_char_not_upper)

lemma set_re_sub_char: "set (re_sub_char p r s) \<subseteq> set s \<union> set r"
  by (auto simp: re_sub_char_def split: if_splits)

lemma set_sub_br: "set (sub_br s) \<subseteq> insert (CHR '' '') (set s)"
proof (induction s rule: sub_br.induct)
  case 1
  then show ?case by simp
next
  case (2 c cs)
  show ?case
  proof (cases "take 6 (c # cs) = ''<br />''")
    case True
    with 2 have "set (sub_br (drop 5 cs)) \<subseteq> insert (CHR '' '') (set (drop 5 cs))" by simp
    moreover have "set (drop 5 cs) \<subseteq> set cs" by (rule set_drop_subset)
    ultimately show ?thesis using True by auto
  next
    case False
    with 2 show ?thesis by auto
  qed
qed

lemma set_sub_spaces: "set (sub_spaces s) \<subseteq> insert (CHR '' '') (set s)"
proof (induction s rule: sub_spaces.induct)
  case 1
  then show ?case by simp
next
  case (2 c cs)
  show ?case
  proof (cases "is_space c")
    case True
    with 2 have "set (sub_spaces (dropWhile is_space cs)) \<subseteq> insert (CHR '' '') (set (dropWhile is_space cs))" by simp
    moreover have "set (dropWhile is_space cs) \<subseteq> set cs" by (auto dest: set_dropWhileD)
    ultimately show ?thesis using True by auto
  next
    case False
    with 2 show ?thesis by auto
  qed
qed

lemma set_split_ws: "t \<in> set (split_ws w s) \<Longrightarrow> set t \<subseteq> set w \<union> set s"
  by (induction w s rule: split_ws.induct) (auto split: if_splits)

lemma upper_codes:
  "\<not> ascii_upper (CHR '' '')" "\<not> ascii_upper (CHR 0x27)" "\<not> ascii_upper (CHR ''.'')"
  "\<not> ascii_upper (CHR '','')" "\<not> ascii_upper (CHR ''('')" "\<not> ascii_upper (CHR '')'')"
  "\<not> ascii_upper (CHR ''!'')" "\<not> ascii_upper (CHR ''?'')"
  by (simp_all add: ascii_upper_def)

lemma re_sub_char_no_upper:
  assumes "\<forall>c\<in>set s. \<not> ascii_upper c" and "\<forall>c\<in>set r. \<not> ascii_upper c"
  shows "\<forall>c\<in>set (re_sub_char p r s). \<not> ascii_upper c"
  using assms set_re_sub_char [of p r s] by blast

lemma sub_br_no_upper:
  assumes "\<forall>c\<in>set s. \<not> ascii_upper c"
  shows "\<forall>c\<in>set (sub_br s). \<not> ascii_upper c"
  using assms set_sub_br [of s] upper_codes(1) by blast

lemma sub_spaces_no_upper:
  assumes "\<forall>c\<in>set s. \<not> ascii_upper c"
  shows "\<forall>c\<in>set (sub_spaces s). \<not> ascii_upper c"
  using assms set_sub_spaces [of s] upper_codes(1) by blast

lemma normalize_no_upper: "\<forall>c\<in>set (basic_english_normalize line). \<not> ascii_upper c"
  unfolding basic_english_normalize_def
  by (intro sub_spaces_no_upper re_sub_char_no_upper sub_br_no_upper py_lower_no_upper)
     (auto simp: upper_codes)

lemma tokenizer_no_upper: "t \<in> set (tokenizer line) \<Longrightarrow> c \<in> set t \<Longrightarrow> \<not> ascii_upper c"
  using normalize_no_upper [of line] set_split_ws [of t "[]" "basic_english_normalize line"]
  by (auto simp: tokenizer_def py_split_def)


lemma special_has_upper: "t \<in> set specials \<Longrightarrow> \<exists>c\<in>set t. ascii_upper c"
  by (auto simp: specials_def CLS_def PAD_def MASK_def SEP_def UNK_def ascii_upper_def)

lemma tokenizer_not_special: "t \<in> set (tokenizer line) \<Longrightarrow> t \<notin> set specials"
  using special_has_upper tokenizer_no_upper by blast

section \<open>The counter of a corpus\<close>

text \<open>The sentences of a corpus are the sentences of its reviews, in order.\<close>

lemma fst_split_loop:
  "fst (split_loop reviews sentences sentence_lens) = sentences @ concat (map split_sentences reviews)"
  by (induction reviews arbitrary: sentences) (simp_all add: Let_def)

lemma corpus_sentences_concat: "corpus_sentences reviews = concat (map split_sentences reviews)"
  by (simp add: corpus_sentences_def fst_split_loop)

lemma keys_Counter_incr: "fst ` set (Counter_incr t c) = insert t (fst ` set c)"
  by (induction t c rule: Counter_incr.induct) auto

lemma distinct_Counter_incr: "distinct (map fst c) \<Longrightarrow> distinct (map fst (Counter_incr t c))"
proof (induction t c rule: Counter_incr.induct)
  case (1 elem)
  then show ?case by simp
next
  case (2 elem k n kvs)
  then show ?case
    using keys_Counter_incr [of elem kvs] by (auto simp: image_iff)
qed

lemma keys_Counter_update: "fst ` set (Counter_update c ts) = fst ` set c \<union> set ts"
  unfolding Counter_update_def
  by (induction ts arbitrary: c) (auto simp: keys_Counter_incr)

lemma distinct_Counter_update:
  "distinct (map fst c) \<Longrightarrow> distinct (map fst (Counter_update c ts))"
  unfolding Counter_update_def
  by (induction ts arbitrary: c) (auto simp: distinct_Counter_incr)

lemma keys_count_tokens:
  "fst ` set (count_tokens c ss) = fst ` set c \<union> (\<Union>s\<in>set ss. set (tokenizer s))"
  unfolding count_tokens_def
  by (induction ss arbitrary: c) (auto simp: keys_Counter_update)

lemma distinct_count_tokens:
  "distinct (map fst c) \<Longrightarrow> distinct (map fst (count_tokens c ss))"
  unfolding count_tokens_def
  by (induction ss arbitrary: c) (auto simp: distinct_Counter_update)

lemma corpus_counter_distinct: "distinct (map fst (corpus_counter reviews))"
  by (simp add: corpus_counter_def distinct_count_tokens)

lemma corpus_counter_no_special: "t \<in> set specials \<Longrightarrow> t \<notin> fst ` set (corpus_counter reviews)"
  using tokenizer_not_special by (auto simp: corpus_counter_def keys_count_tokens)

section \<open>The frozen vocabulary\<close>

lemma itos_torchtext_vocab_subset:
  "set (itos (torchtext_vocab c m)) \<subseteq> fst ` set c"
  by (auto simp: torchtext_vocab_def)

lemma distinct_itos_torchtext_vocab:
  "distinct (map fst c) \<Longrightarrow> distinct (itos (torchtext_vocab c m))"
  by (simp add: torchtext_vocab_def distinct_map_filter)

lemma fill_vocab_result:
  assumes "\<forall>t\<in>set specials. t \<notin> fst ` set (counter self)"
  shows "fill_vocab self =
    (Inr (), self\<lparr>vocab := Some \<lparr>itos = specials @ itos (torchtext_vocab (counter self) 2),
                                 default_index = Some 4\<rparr>\<rparr>)"
proof -
  have "\<forall>t\<in>set specials. t \<notin> set (itos (torchtext_vocab (counter self) 2))"
    using assms itos_torchtext_vocab_subset by blast
  then show ?thesis
    by (simp add: fill_vocab_def insert_token_def set_default_index_def specials_def
        CLS_def PAD_def MASK_def SEP_def UNK_def Let_def)
qed


lemma index_of_None: "index_of t xs = None \<longleftrightarrow> t \<notin> set xs"
  by (induction xs) auto

lemma index_of_Some: "index_of t xs = Some i \<Longrightarrow> i < length xs \<and> xs ! i = t"
  by (induction xs arbitrary: i) (auto split: if_splits)

lemma index_of_append_right:
  "t \<notin> set xs \<Longrightarrow> index_of t ys = Some j \<Longrightarrow> index_of t (xs @ ys) = Some (length xs + j)"
  by (induction xs) auto

lemma index_of_member: "t \<in> set xs \<Longrightarrow> \<exists>i. index_of t xs = Some i"
  using index_of_None [of t xs] by (cases "index_of t xs") auto

lemma getitem_present:
  assumes "t \<in> set (itos v)"
  shows "\<exists>i. vocab_getitem v t = Inr (int i) \<and> lookup_token v (int i) = Inr t \<and> index_of t (itos v) = Some i"
proof -
  from index_of_member [OF assms] obtain i where i: "index_of t (itos v) = Some i" by blast
  with index_of_Some have "i < length (itos v)" "itos v ! i = t" by blast+
  with i show ?thesis by (auto simp: vocab_getitem_def lookup_token_def)
qed

lemma getitem_absent:
  "t \<notin> set (itos v) \<Longrightarrow> default_index v = Some d \<Longrightarrow> vocab_getitem v t = Inr d"
  by (simp add: vocab_getitem_def index_of_None [THEN iffD2])

lemma getitem_tail:
  assumes "t \<in> set ys" "t \<notin> set xs"
  shows "\<exists>i. vocab_getitem \<lparr>itos = xs @ ys, default_index = d\<rparr> t = Inr i \<and> int (length xs) \<le> i"
proof -
  from index_of_member [OF assms(1)] obtain j where "index_of t ys = Some j" by blast
  with assms(2) have "index_of t (xs @ ys) = Some (length xs + j)"
    by (simp add: index_of_append_right)
  then show ?thesis by (simp add: vocab_getitem_def)
qed

lemma specials_getitem:
  "vocab_getitem \<lparr>itos = specials @ ys, default_index = d\<rparr> CLS = Inr 0"
  "vocab_getitem \<lparr>itos = specials @ ys, default_index = d\<rparr> PAD = Inr 1"
  "vocab_getitem \<lparr>itos = specials @ ys, default_index = d\<rparr> MASK = Inr 2"
  "vocab_getitem \<lparr>itos = specials @ ys, default_index = d\<rparr> SEP = Inr 3"
  "vocab_getitem \<lparr>itos = specials @ ys, default_index = d\<rparr> UNK = Inr 4"
  by (simp_all add: vocab_getitem_def specials_def CLS_def PAD_def MASK_def SEP_def UNK_def)

text \<open>
  Claim C1. For any corpus, \<open>_fill_vocab\<close> run on the counter of that corpus succeeds,
  and in the vocabulary it freezes the first five tokens are exactly \<open>[CLS]\<close>,
  \<open>[PAD]\<close>, \<open>[MASK]\<close>, \<open>[SEP]\<close>, \<open>[UNK]\<close> with the indices 0, 1, 2, 3, 4; every
  other token of the vocabulary has an index of at least 5; and looking up a token that
  is not in the vocabulary gives the index 4 of \<open>[UNK]\<close>.
\<close>

theorem fill_vocab_special_indices:
  assumes "counter self = corpus_counter (ds self)"
  shows "\<exists>v. fill_vocab self = (Inr (), self\<lparr>vocab := Some v\<rparr>)
    \<and> take 5 (itos v) = [CLS, PAD, MASK, SEP, UNK]
    \<and> vocab_getitem v CLS = Inr 0 \<and> vocab_getitem v PAD = Inr 1
    \<and> vocab_getitem v MASK = Inr 2 \<and> vocab_getitem v SEP = Inr 3
    \<and> vocab_getitem v UNK = Inr 4
    \<and> (\<forall>t\<in>set (itos v). t \<notin> set specials \<longrightarrow> (\<exists>i. vocab_getitem v t = Inr i \<and> 5 \<le> i))
    \<and> (\<forall>t. t \<notin> set (itos v) \<longrightarrow> vocab_getitem v t = Inr 4)"
proof -
  let ?ys = "itos (torchtext_vocab (counter self) 2)"
  let ?v = "\<lparr>itos = specials @ ?ys, default_index = Some 4\<rparr>"
  have free: "\<forall>t\<in>set specials. t \<notin> fst ` set (counter self)"
    using assms corpus_counter_no_special by simp
  have run: "fill_vocab self = (Inr (), self\<lparr>vocab := Some ?v\<rparr>)"
    by (rule fill_vocab_result [OF free])
  have first: "take 5 (itos ?v) = [CLS, PAD, MASK, SEP, UNK]"
    by (simp add: specials_def)
  have tail: "\<forall>t\<in>set (itos ?v). t \<notin> set specials \<longrightarrow> (\<exists>i. vocab_getitem ?v t = Inr i \<and> 5 \<le> i)"
  proof (intro ballI impI)
    fix t assume "t \<in> set (itos ?v)" "t \<notin> set specials"
    then have "t \<in> set ?ys" by simp
    from getitem_tail [OF this \<open>t \<notin> set specials\<close>, of "Some 4"]
    show "\<exists>i. vocab_getitem ?v t = Inr i \<and> 5 \<le> i" by (simp add: specials_def)
  qed
  have absent: "\<forall>t. t \<notin> set (itos ?v) \<longrightarrow> vocab_getitem ?v t = Inr 4"
    by (simp add: getitem_absent)
  show ?thesis
    using run first tail absent specials_getitem [of ?ys "Some 4"] by blast
qed

theorem fill_vocab_special_indices_witness:
  "counter (init_self [''a a. b''] None None False\<lparr>counter := [(''a'', 2), (''b'', 1)]\<rparr>)
     = corpus_counter (ds (init_self [''a a. b''] None None False\<lparr>counter := [(''a'', 2), (''b'', 1)]\<rparr>))
   \<and> fst (fill_vocab (init_self [''a a. b''] None None False\<lparr>counter := [(''a'', 2), (''b'', 1)]\<rparr>)) = Inr ()
   \<and> vocab (snd (fill_vocab (init_self [''a a. b''] None None False\<lparr>counter := [(''a'', 2), (''b'', 1)]\<rparr>)))
        = Some \<lparr>itos = [CLS, PAD, MASK, SEP, UNK, ''a''], default_index = Some 4\<rparr>
   \<and> (\<exists>i. vocab_getitem \<lparr>itos = [CLS, PAD, MASK, SEP, UNK, ''a''], default_index = Some 4\<rparr> ''a'' = Inr i \<and> 5 \<le> i)
   \<and> vocab_getitem \<lparr>itos = [CLS, PAD, MASK, SEP, UNK, ''a''], default_index = Some 4\<rparr> ''b'' = Inr 4"
proof -
  let ?self = "init_self [''a a. b''] None None False\<lparr>counter := [(''a'', 2), (''b'', 1)]\<rparr>"
  let ?V = "\<lparr>itos = [CLS, PAD, MASK, SEP, UNK, ''a''], default_index = Some 4\<rparr>"
  have cc: "corpus_counter [''a a. b''] = [(''a'', 2), (''b'', 1)]"
    by code_simp
  have h: "counter ?self = corpus_counter (ds ?self)"
    by (simp add: init_self_def cc)
  from fill_vocab_special_indices [OF h] obtain v where
    run: "fill_vocab ?self = (Inr (), ?self\<lparr>vocab := Some v\<rparr>)"
    and tail: "\<forall>t\<in>set (itos v). t \<notin> set specials \<longrightarrow> (\<exists>i. vocab_getitem v t = Inr i \<and> 5 \<le> i)"
    and absent: "\<forall>t. t \<notin> set (itos v) \<longrightarrow> vocab_getitem v t = Inr 4"
    by blast
  have "vocab (snd (fill_vocab ?self)) = Some ?V"
    by (simp add: fill_vocab_def torchtext_vocab_def insert_token_def set_default_index_def
        CLS_def PAD_def MASK_def SEP_def UNK_def)
  moreover have "vocab (snd (fill_vocab ?self)) = Some v"
    unfolding run by simp
  ultimately have v: "v = ?V" by simp
  have mem: "''a'' \<in> set (itos ?V)" by simp
  have nsp: "''a'' \<notin> set specials"
    by (simp add: specials_def CLS_def PAD_def MASK_def SEP_def UNK_def)
  have a: "\<exists>i. vocab_getitem ?V ''a'' = Inr i \<and> 5 \<le> i"
    using tail [unfolded v, rule_format, OF mem nsp] .
  have nb: "''b'' \<notin> set (itos ?V)"
    by (simp add: CLS_def PAD_def MASK_def SEP_def UNK_def)
  have b: "vocab_getitem ?V ''b'' = Inr 4"
    using absent [unfolded v, rule_format, OF nb] .
  have f: "fst (fill_vocab ?self) = Inr ()" unfolding run by simp
  show ?thesis
    using h f \<open>vocab (snd (fill_vocab ?self)) = Some ?V\<close> a b by blast
qed

text \<open>
  Claim C8. In the vocabulary that \<open>_fill_vocab\<close> freezes for a corpus, looking up a
  token that is present and then looking up the token of that index gives the token
  back; a token that is absent is mapped to index 4, which is the index of \<open>[UNK]\<close>;
  and a token other than the five special ones is present exactly when the counter
  holds it with a count of at least 2 (so a token seen once or never is absent).
\<close>

theorem vocab_round_trip:
  assumes "counter self = corpus_counter (ds self)"
  shows "\<exists>v. fill_vocab self = (Inr (), self\<lparr>vocab := Some v\<rparr>)
    \<and> (\<forall>t\<in>set (itos v). \<exists>i. vocab_getitem v t = Inr i \<and> lookup_token v i = Inr t)
    \<and> (\<forall>t. t \<notin> set (itos v) \<longrightarrow> vocab_getitem v t = Inr 4 \<and> lookup_token v 4 = Inr UNK)
    \<and> (\<forall>t. t \<notin> set specials \<longrightarrow>
          (t \<in> set (itos v) \<longleftrightarrow> (\<exists>n. (t, n) \<in> set (counter self) \<and> 2 \<le> n)))"
proof -
  let ?ys = "itos (torchtext_vocab (counter self) 2)"
  let ?v = "\<lparr>itos = specials @ ?ys, default_index = Some 4\<rparr>"
  have free: "\<forall>t\<in>set specials. t \<notin> fst ` set (counter self)"
    using assms corpus_counter_no_special by simp
  have run: "fill_vocab self = (Inr (), self\<lparr>vocab := Some ?v\<rparr>)"
    by (rule fill_vocab_result [OF free])
  have present: "\<forall>t\<in>set (itos ?v). \<exists>i. vocab_getitem ?v t = Inr i \<and> lookup_token ?v i = Inr t"
    using getitem_present [of _ ?v] by blast
  have unk: "lookup_token ?v 4 = Inr UNK"
    by (simp add: lookup_token_def specials_def)
  have absent: "\<forall>t. t \<notin> set (itos ?v) \<longrightarrow> vocab_getitem ?v t = Inr 4 \<and> lookup_token ?v 4 = Inr UNK"
    using unk by (simp add: getitem_absent)
  have kept: "\<forall>t. t \<notin> set specials \<longrightarrow>
      (t \<in> set (itos ?v) \<longleftrightarrow> (\<exists>n. (t, n) \<in> set (counter self) \<and> 2 \<le> n))"
    by (auto simp: torchtext_vocab_def image_iff)
  show ?thesis
    using run present absent kept by blast
qed

theorem vocab_round_trip_witness:
  "counter (init_self [''to be. or not. to be''] None None False
              \<lparr>counter := [(''to'', 2), (''be'', 2), (''or'', 1), (''not'', 1)]\<rparr>)
     = corpus_counter (ds (init_self [''to be. or not. to be''] None None False
              \<lparr>counter := [(''to'', 2), (''be'', 2), (''or'', 1), (''not'', 1)]\<rparr>))
   \<and> vocab (snd (fill_vocab (init_self [''to be. or not. to be''] None None False
              \<lparr>counter := [(''to'', 2), (''be'', 2), (''or'', 1), (''not'', 1)]\<rparr>)))
        = Some \<lparr>itos = [CLS, PAD, MASK, SEP, UNK, ''to'', ''be''], default_index = Some 4\<rparr>
   \<and> (\<exists>i. vocab_getitem \<lparr>itos = [CLS, PAD, MASK, SEP, UNK, ''to'', ''be''], default_index = Some 4\<rparr> ''be'' = Inr i
          \<and> lookup_token \<lparr>itos = [CLS, PAD, MASK, SEP, UNK, ''to'', ''be''], default_index = Some 4\<rparr> i = Inr ''be'')
   \<and> vocab_getitem \<lparr>itos = [CLS, PAD, MASK, SEP, UNK, ''to'', ''be''], default_index = Some 4\<rparr> ''or'' = Inr 4
   \<and> vocab_getitem \<lparr>itos = [CLS, PAD, MASK, SEP, UNK, ''to'', ''be''], default_index = Some 4\<rparr> ''zebra'' = Inr 4
   \<and> lookup_token \<lparr>itos = [CLS, PAD, MASK, SEP, UNK, ''to'', ''be''], default_index = Some 4\<rparr> 4 = Inr UNK"
proof -
  let ?c = "[(''to'', 2), (''be'', 2), (''or'', 1), (''not'', 1)] :: Counter"
  let ?self = "init_self [''to be. or not. to be''] None None False\<lparr>counter := ?c\<rparr>"
  let ?V = "\<lparr>itos = [CLS, PAD, MASK, SEP, UNK, ''to'', ''be''], default_index = Some 4\<rparr>"
  have cc: "corpus_counter [''to be. or not. to be''] = ?c"
    by code_simp
  have h: "counter ?self = corpus_counter (ds ?self)"
    by (simp add: init_self_def cc)
  from vocab_round_trip [OF h] obtain v where
    run: "fill_vocab ?self = (Inr (), ?self\<lparr>vocab := Some v\<rparr>)"
    and present: "\<forall>t\<in>set (itos v). \<exists>i. vocab_getitem v t = Inr i \<and> lookup_token v i = Inr t"
    and absent: "\<forall>t. t \<notin> set (itos v) \<longrightarrow> vocab_getitem v t = Inr 4 \<and> lookup_token v 4 = Inr UNK"
    and kept: "\<forall>t. t \<notin> set specials \<longrightarrow>
          (t \<in> set (itos v) \<longleftrightarrow> (\<exists>n. (t, n) \<in> set (counter ?self) \<and> 2 \<le> n))"
    by blast
  have frozen: "vocab (snd (fill_vocab ?self)) = Some ?V"
    by (simp add: fill_vocab_def torchtext_vocab_def insert_token_def set_default_index_def
        CLS_def PAD_def MASK_def SEP_def UNK_def)
  moreover have "vocab (snd (fill_vocab ?self)) = Some v"
    unfolding run by simp
  ultimately have v: "v = ?V" by simp
  have nsp: "''be'' \<notin> set specials" "''or'' \<notin> set specials" "''zebra'' \<notin> set specials"
    by (simp_all add: specials_def CLS_def PAD_def MASK_def SEP_def UNK_def)
  have "\<exists>n. (''be'', n) \<in> set (counter ?self) \<and> 2 \<le> n"
    by (rule exI [of _ 2]) simp
  with kept [rule_format, OF nsp(1)] have mem: "''be'' \<in> set (itos ?V)"
    unfolding v by blast
  have "\<not> (\<exists>n. (''or'', n) \<in> set (counter ?self) \<and> 2 \<le> n)"
    by simp
  with kept [rule_format, OF nsp(2)] have nor: "''or'' \<notin> set (itos ?V)"
    unfolding v by blast
  have "\<not> (\<exists>n. (''zebra'', n) \<in> set (counter ?self) \<and> 2 \<le> n)"
    by simp
  with kept [rule_format, OF nsp(3)] have nz: "''zebra'' \<notin> set (itos ?V)"
    unfolding v by blast
  have a: "\<exists>i. vocab_getitem ?V ''be'' = Inr i \<and> lookup_token ?V i = Inr ''be''"
    using present [unfolded v, rule_format, OF mem] .
  have b: "vocab_getitem ?V ''or'' = Inr 4 \<and> lookup_token ?V 4 = Inr UNK"
    using absent [unfolded v, rule_format, OF nor] .
  have c: "vocab_getitem ?V ''zebra'' = Inr 4 \<and> lookup_token ?V 4 = Inr UNK"
    using absent [unfolded v, rule_format, OF nz] .
  show ?thesis
    using h frozen a b c by blast
qed

section \<open>The sentence lengths and the length estimator\<close>

text \<open>
  The first loop of \<open>prepare_dataset\<close> hands \<open>sentence_lens\<close> on unchanged, so the
  estimator is always called on the empty list, on which it raises.
\<close>

lemma split_loop_lens: "snd (split_loop reviews sentences sentence_lens) = sentence_lens"
  by (induction reviews arbitrary: sentences) (simp_all add: Let_def)

lemma find_optimal_empty: "find_optimal_sentence_length [] = Inl IndexError"
  by (simp add: find_optimal_sentence_length_def np_percentile_int_def OPTIMAL_LENGTH_PERCENTILE_def)

text \<open>
  The estimator rounds as numpy does: the counts 1, 2, 7 have the exact 70th percentile
  4, and in double precision the interpolation gives 3.9999999999999996, so the result
  is 3.
\<close>

lemma find_optimal_rounding: "find_optimal_sentence_length [7, 1, 2] = Inr 3"
  by code_simp

lemma prepare_dataset_raises: "prepare_dataset self g = Some (Inl IndexError, self, g)"
proof -
  obtain ss ls where sl: "split_loop (ds self) [] [] = (ss, ls)" by (cases "split_loop (ds self) [] []")
  with split_loop_lens [of "ds self" "[]" "[]"] have "ls = []" by simp
  with sl show ?thesis by (simp add: prepare_dataset_def find_optimal_empty)
qed

text \<open>
  Claim C3 asks that for every non-empty corpus the computed optimal length is the
  integer 70th percentile of the word counts of all sentences. The code does not
  compute it. On the corpus of the one review \<open>a b. c d e f\<close> the sentences have 2
  and 4 words, and the estimator applied to these counts gives 3; but the list that
  the first loop passes to the estimator is empty, and \<open>prepare_dataset\<close> ends with
  the exception of the estimator.
\<close>

theorem optimal_length_not_computed:
  "corpus_sentences [''a b. c d e f''] = [''a b'', ''c d e f'']
   \<and> update_length [''a b'', ''c d e f''] [] = [2, 4]
   \<and> find_optimal_sentence_length [2, 4] = Inr 3
   \<and> split_loop [''a b. c d e f''] [] [] = ([''a b'', ''c d e f''], [])
   \<and> prepare_dataset (init_self [''a b. c d e f''] None None False) (const_rng 0)
       = Some (Inl IndexError, init_self [''a b. c d e f''] None None False, const_rng 0)"
proof -
  have 1: "corpus_sentences [''a b. c d e f''] = [''a b'', ''c d e f'']" by code_simp
  have 2: "update_length [''a b'', ''c d e f''] [] = [2, 4]" by code_simp
  have 3: "find_optimal_sentence_length [2, 4] = Inr 3" by code_simp
  have 4: "split_loop [''a b. c d e f''] [] [] = ([''a b'', ''c d e f''], [])" by code_simp
  show ?thesis using 1 2 3 4 prepare_dataset_raises by blast
qed

text \<open>
  Claim C7 asks for a ConfigurationError when the list of word counts is empty. At the
  empty corpus the estimator and \<open>prepare_dataset\<close> end with the exception of the
  percentile computation, which is not a ConfigurationError.
\<close>

theorem empty_lengths_not_configuration_error:
  "find_optimal_sentence_length [] = Inl IndexError
   \<and> map_option fst (prepare_dataset (init_self [] None None False) (const_rng 0))
       = Some (Inl IndexError)
   \<and> map_option fst (prepare_dataset (init_self [] None None False) (const_rng 0))
       \<noteq> Some (Inl ConfigurationError)"
  by (simp add: find_optimal_empty prepare_dataset_raises)

text \<open>
  Claim C7 as amended. When the list of word counts that the first loop hands to the
  estimator is empty, the estimator raises the exception of the percentile computation
  on an empty array, and \<open>prepare_dataset\<close> ends with that exception at once: the
  instance is as it was (its counter and vocabulary untouched) and no random number has
  been drawn.
\<close>

theorem empty_lengths_abort_build:
  assumes "snd (split_loop (ds self) [] []) = []"
  shows "find_optimal_sentence_length [] = Inl IndexError
    \<and> prepare_dataset self g = Some (Inl IndexError, self, g)"
proof -
  obtain ss ls where sl: "split_loop (ds self) [] [] = (ss, ls)"
    by (cases "split_loop (ds self) [] []")
  with assms have "ls = []" by simp
  with sl show ?thesis by (simp add: prepare_dataset_def find_optimal_empty)
qed

theorem empty_lengths_abort_build_witness:
  "snd (split_loop (ds (init_self [] None None False)) [] []) = []
   \<and> prepare_dataset (init_self [] None None False) (const_rng 0)
       = Some (Inl IndexError, init_self [] None None False, const_rng 0)
   \<and> counter (init_self [] None None False) = []
   \<and> vocab (init_self [] None None False) = None"
proof -
  have h: "snd (split_loop (ds (init_self [] None None False)) [] []) = []"
    by (simp add: init_self_def)
  from empty_lengths_abort_build [OF h, of "const_rng 0"] h show ?thesis
    by (simp add: init_self_def)
qed

section \<open>The selection of a negative pair\<close>

text \<open>
  As written, the method ends on its first line: with \<open>ValueError\<close> from
  \<open>random.randint(0, -1)\<close> when there is no sentence, and with \<open>AttributeError\<close> from
  \<open>random.randin\<close> otherwise, after one number has been drawn.
\<close>

lemma select_as_written:
  "select_false_nsp_sentences sentences g =
     (if sentences = [] then Some (Inl ValueError, g)
      else Some (Inl AttributeError, g\<lparr>pos := Suc (pos g)\<rparr>))"
  by (simp add: select_false_nsp_sentences_def random_randint_def random_randin_def Let_def)

text \<open>
  The loop on its own: when it returns an index, that index is not the successor of the
  first one, and the only exception it can end with is the \<open>ValueError\<close> of a draw.
  With a generator that keeps producing the successor, it does not return.
\<close>

lemma nsp_while_result:
  assumes "nsp_while n a b g = Some r"
  shows "(\<exists>g'. r = (Inl ValueError, g')) \<or> (\<exists>b' g'. r = (Inr b', g') \<and> b' \<noteq> a + 1)"
proof (rule nsp_while.raw_induct
    [where P = "\<lambda>n a b g r. (\<exists>g'. r = (Inl ValueError, g')) \<or> (\<exists>b' g'. r = (Inr b', g') \<and> b' \<noteq> a + 1)"])
  show "nsp_while n a b g = Some r" by (rule assms)
next
  fix loop :: "int \<Rightarrow> int \<Rightarrow> int \<Rightarrow> rng \<Rightarrow> ((error + int) \<times> rng) option"
  fix n a b :: int and g :: rng and r :: "(error + int) \<times> rng"
  assume IH: "\<And>n a b g r. loop n a b g = Some r \<Longrightarrow>
      (\<exists>g'. r = (Inl ValueError, g')) \<or> (\<exists>b' g'. r = (Inr b', g') \<and> b' \<noteq> a + 1)"
  assume body: "(if b = a + 1
      then case random_randint 0 (n - 1) g of
           (Inl e, g') \<Rightarrow> Some (Inl e, g')
           | (Inr drawn, g') \<Rightarrow> loop n a drawn g'
      else Some (Inr b, g)) = Some r"
  show "(\<exists>g'. r = (Inl ValueError, g')) \<or> (\<exists>b' g'. r = (Inr b', g') \<and> b' \<noteq> a + 1)"
  proof (cases "b = a + 1")
    case False
    with body show ?thesis by auto
  next
    case True
    show ?thesis
    proof (cases "n - 1 < 0")
      case True
      with \<open>b = a + 1\<close> body show ?thesis by (auto simp: random_randint_def)
    next
      case False
      with \<open>b = a + 1\<close> body obtain d g' where "loop n a d g' = Some r"
        by (auto simp: random_randint_def)
      from IH [OF this] show ?thesis .
    qed
  qed
qed

lemma nsp_while_stuck:
  assumes "nsp_while n a b g = Some r"
  shows "\<not> (b = a + 1 \<and> 0 < n \<and> (\<forall>i. int (draws g i mod nat n) = a + 1))"
proof (rule nsp_while.raw_induct
    [where P = "\<lambda>n a b g r. \<not> (b = a + 1 \<and> 0 < n \<and> (\<forall>i. int (draws g i mod nat n) = a + 1))"])
  show "nsp_while n a b g = Some r" by (rule assms)
next
  fix loop :: "int \<Rightarrow> int \<Rightarrow> int \<Rightarrow> rng \<Rightarrow> ((error + int) \<times> rng) option"
  fix n a b :: int and g :: rng and r :: "(error + int) \<times> rng"
  assume IH: "\<And>n a b g r. loop n a b g = Some r \<Longrightarrow>
      \<not> (b = a + 1 \<and> 0 < n \<and> (\<forall>i. int (draws g i mod nat n) = a + 1))"
  assume body: "(if b = a + 1
      then case random_randint 0 (n - 1) g of
           (Inl e, g') \<Rightarrow> Some (Inl e, g')
           | (Inr drawn, g') \<Rightarrow> loop n a drawn g'
      else Some (Inr b, g)) = Some r"
  show "\<not> (b = a + 1 \<and> 0 < n \<and> (\<forall>i. int (draws g i mod nat n) = a + 1))"
  proof
    assume c: "b = a + 1 \<and> 0 < n \<and> (\<forall>i. int (draws g i mod nat n) = a + 1)"
    then have "loop n a (a + 1) (g\<lparr>pos := Suc (pos g)\<rparr>) = Some r"
      using body by (simp add: random_randint_def)
    from IH [OF this] c show False by simp
  qed
qed

lemma nsp_while_never_returns:
  "0 < n \<Longrightarrow> \<forall>i. int (draws g i mod nat n) = a + 1 \<Longrightarrow> nsp_while n a (a + 1) g = None"
  using nsp_while_stuck [of n a "a + 1" g] by (cases "nsp_while n a (a + 1) g") auto

text \<open>
  The number of draws of the loop is not bounded: when the first \<open>k\<close> draws land on
  the successor and the next one does not, the loop returns after \<open>k + 1\<close> draws.
\<close>

lemma nsp_while_exit: "b \<noteq> a + 1 \<Longrightarrow> nsp_while n a b g = Some (Inr b, g)"
  by (subst nsp_while.simps) simp

lemma nsp_while_step:
  "0 < n \<Longrightarrow> nsp_while n a (a + 1) g =
     nsp_while n a (int (draws g (pos g) mod nat n)) (g\<lparr>pos := Suc (pos g)\<rparr>)"
  by (subst nsp_while.simps) (simp add: random_randint_def)

lemma nsp_while_retries:
  assumes "0 < n"
    and "\<forall>i<k. int (draws g (pos g + i) mod nat n) = a + 1"
    and "int (draws g (pos g + k) mod nat n) \<noteq> a + 1"
  shows "nsp_while n a (a + 1) g =
     Some (Inr (int (draws g (pos g + k) mod nat n)), g\<lparr>pos := pos g + k + 1\<rparr>)"
  using assms(2,3)
proof (induction k arbitrary: g)
  case 0
  then show ?case
    using assms(1) by (simp add: nsp_while_step nsp_while_exit)
next
  case (Suc k)
  let ?g = "g\<lparr>pos := Suc (pos g)\<rparr>"
  from Suc.prems(1) have first: "int (draws g (pos g) mod nat n) = a + 1"
    by (metis add.right_neutral zero_less_Suc)
  have "\<forall>i<k. int (draws ?g (pos ?g + i) mod nat n) = a + 1"
    using Suc.prems(1) by (metis Suc_less_eq add_Suc_shift rng.select_convs(1) rng.select_convs(2) rng.surjective rng.update_convs(2))
  moreover have "int (draws ?g (pos ?g + k) mod nat n) \<noteq> a + 1"
    using Suc.prems(2) by simp
  ultimately have "nsp_while n a (a + 1) ?g =
     Some (Inr (int (draws ?g (pos ?g + k) mod nat n)), ?g\<lparr>pos := pos ?g + k + 1\<rparr>)"
    by (rule Suc.IH)
  then show ?case
    using assms(1) first by (simp add: nsp_while_step)
qed

text \<open>
  Claim C5 asks that every negative pair returned by the sampler has a second position
  different from the successor of the first. The sampler returns no pair: on the four
  sentences A, B, C, D it ends with \<open>AttributeError\<close>.
\<close>

theorem select_false_raises:
  "select_false_nsp_sentences [''A'', ''B'', ''C'', ''D''] (const_rng 0)
     = Some (Inl AttributeError, const_rng 0\<lparr>pos := 1\<rparr>)"
  by (simp add: select_as_written const_rng_def)

text \<open>
  Claim C6 asks for a capped number of retries and a DataError when the corpus has at
  most one sentence. With no sentence at all the selection ends with \<open>ValueError\<close>,
  which is not a DataError.
\<close>

theorem no_sentence_not_data_error:
  "select_false_nsp_sentences [] (const_rng 0) = Some (Inl ValueError, const_rng 0)
   \<and> select_false_nsp_sentences [] (const_rng 0) \<noteq> Some (Inl DataError, const_rng 0)"
  by (simp add: select_as_written)

text \<open>
  Claim C6 as amended. The rejection loop has no cap on its retries: for a generator
  whose every draw lands on the successor of the first index it never returns. No run
  of the loop or of the selection ends with a DataError, and on an empty list of
  sentences the selection ends with the \<open>ValueError\<close> of its first draw.
\<close>

theorem rejection_loop_unbounded:
  assumes "0 < n" and "\<forall>i. int (draws g i mod nat n) = a + 1"
  shows "nsp_while n a (a + 1) g = None
    \<and> nsp_while m c d h \<noteq> Some (Inl DataError, h')
    \<and> select_false_nsp_sentences sentences h \<noteq> Some (Inl DataError, h')
    \<and> select_false_nsp_sentences [] h = Some (Inl ValueError, h)"
proof -
  have "nsp_while n a (a + 1) g = None"
    using assms by (rule nsp_while_never_returns)
  moreover have "nsp_while m c d h \<noteq> Some (Inl DataError, h')"
    using nsp_while_result [of m c d h "(Inl DataError, h')"] by auto
  moreover have "select_false_nsp_sentences sentences h \<noteq> Some (Inl DataError, h')"
    by (simp add: select_as_written)
  moreover have "select_false_nsp_sentences [] h = Some (Inl ValueError, h)"
    by (simp add: select_as_written)
  ultimately show ?thesis by blast
qed

theorem rejection_loop_unbounded_witness:
  "(0::int) < 2 \<and> (\<forall>i. int (draws (const_rng 1) i mod nat 2) = 0 + 1)
   \<and> nsp_while 2 0 (0 + 1) (const_rng 1) = None"
proof -
  have h1: "(0::int) < 2" by simp
  have h2: "\<forall>i. int (draws (const_rng 1) i mod nat 2) = 0 + 1" by (simp add: const_rng_def)
  from rejection_loop_unbounded [OF h1 h2] h1 h2 show ?thesis by blast
qed

section \<open>The construction of the examples\<close>

text \<open>
  Every call of \<open>_create_item\<close> in \<open>prepare_dataset\<close> raises \<open>TypeError\<close>, so the
  third pass ends with that exception at the first review of two or more sentences;
  when it ends without an exception it has appended nothing.
\<close>

lemma call_create_item_raises: "call_create_item first second is_next = Inl TypeError"
  by (simp add: call_create_item_def py_call_def)

lemma pair_loop_raises: "pair_loop sentences (s1 # s2 # rest) nsp g = Some (Inl TypeError, g)"
  by (simp add: call_create_item_raises)

lemma pair_loop_short:
  "length review_sentences \<le> 1 \<Longrightarrow> pair_loop sentences review_sentences nsp g = Some (Inr nsp, g)"
proof (cases review_sentences)
  case Nil
  then show ?thesis by simp
next
  case (Cons s rest)
  assume "length review_sentences \<le> 1"
  with Cons have "rest = []" by simp
  with Cons show ?thesis by simp
qed

lemma review_loop_appends_nothing:
  "review_loop sentences reviews nsp g = Some (Inr nsp', g') \<Longrightarrow> nsp' = nsp \<and> g' = g"
proof (induction reviews arbitrary: nsp g)
  case Nil
  then show ?case by simp
next
  case (Cons review rest)
  show ?case
  proof (cases "split_sentences review")
    case Nil
    with Cons show ?thesis by (simp add: Let_def)
  next
    case (Cons s1 tl1)
    note outer = this
    show ?thesis
    proof (cases tl1)
      case Nil
      with outer Cons.prems Cons.IH show ?thesis by (simp add: Let_def)
    next
      case (Cons s2 tl2)
      with outer Cons.prems show ?thesis by (simp add: Let_def call_create_item_raises)
    qed
  qed
qed

text \<open>
  Claim C2 asks that every example holds three sequences of the common length
  \<open>2 * OptimalLength + 3\<close>. The method that builds an example returns the list
  \<open>[0,0,0]\<close> of three numbers, and a call with the two token lists and the label, as
  \<open>prepare_dataset\<close> makes it, raises \<open>TypeError\<close>.
\<close>

theorem create_item_raises:
  "create_item = [0, 0, 0]
   \<and> call_create_item (tokenizer ''a b'') (tokenizer ''c d'') 1 = Inl TypeError
   \<and> pair_loop [''a b'', ''c d''] [''a b'', ''c d''] [] (const_rng 0) = Some (Inl TypeError, const_rng 0)"
  by (simp add: create_item_def call_create_item_raises)

text \<open>
  Claim C4 asks that a review of \<open>k \<ge> 2\<close> sentences contributes \<open>k - 1\<close> examples of
  label 1 and \<open>k - 1\<close> of label 0, and a review of one sentence none. On the review
  \<open>a. b\<close> the third pass ends with \<open>TypeError\<close> and the constructor with the exception
  of the estimator, so there is no example; on a review of one sentence the third pass
  does append nothing.
\<close>

theorem two_sentence_review_no_examples:
  "split_sentences ''a. b'' = [''a'', ''b'']
   \<and> review_loop [''a'', ''b''] [''a. b''] [] (const_rng 0) = Some (Inl TypeError, const_rng 0)
   \<and> review_loop [''a''] [''a''] [] (const_rng 0) = Some (Inr [], const_rng 0)
   \<and> init [''a. b''] None None False (const_rng 0) = Some (Inl IndexError, const_rng 0)"
proof -
  have 1: "split_sentences ''a. b'' = [''a'', ''b'']" by code_simp
  have 2: "split_sentences ''a'' = [''a'']" by code_simp
  have 3: "review_loop [''a'', ''b''] [''a. b''] [] (const_rng 0) = Some (Inl TypeError, const_rng 0)"
    by (simp add: 1 call_create_item_raises)
  have 4: "review_loop [''a''] [''a''] [] (const_rng 0) = Some (Inr [], const_rng 0)"
    by (simp add: 2)
  have 5: "init [''a. b''] None None False (const_rng 0) = Some (Inl IndexError, const_rng 0)"
    by (simp add: init_def prepare_dataset_raises)
  show ?thesis using 1 3 4 5 by blast
qed

text \<open>
  Claim C10 asks that the examples of an assembled dataset carry the labels 1, 0, 1, 0
  and so on. On the review \<open>a. b. c\<close> the third pass ends with \<open>TypeError\<close> before the
  first example is appended, and \<open>prepare_dataset\<close> with the exception of the estimator:
  no example is assembled.
\<close>

theorem no_alternating_examples:
  "split_sentences ''a. b. c'' = [''a'', ''b'', ''c'']
   \<and> review_loop [''a'', ''b'', ''c''] [''a. b. c''] [] (const_rng 0) = Some (Inl TypeError, const_rng 0)
   \<and> prepare_dataset (init_self [''a. b. c''] None None False) (const_rng 0)
       = Some (Inl IndexError, init_self [''a. b. c''] None None False, const_rng 0)"
proof -
  have 1: "split_sentences ''a. b. c'' = [''a'', ''b'', ''c'']" by code_simp
  have 2: "review_loop [''a'', ''b'', ''c''] [''a. b. c''] [] (const_rng 0) = Some (Inl TypeError, const_rng 0)"
    by (simp add: 1 call_create_item_raises)
  show ?thesis using 1 2 prepare_dataset_raises by blast
qed

section \<open>The random source\<close>

text \<open>
  The constructor and the methods take no seed and no random source: every draw reads
  and advances the generator of the module \<open>random\<close>. What a run chooses depends on
  the state of that generator only through the raw numbers still to come.
\<close>

lemma same_draws_sym: "same_draws g1 g2 \<Longrightarrow> same_draws g2 g1"
  by (simp add: same_draws_def)

lemma same_draws_next:
  assumes "same_draws g1 g2"
  shows "same_draws (g1\<lparr>pos := Suc (pos g1)\<rparr>) (g2\<lparr>pos := Suc (pos g2)\<rparr>)"
  unfolding same_draws_def
proof
  fix i
  from assms have "draws g1 (pos g1 + Suc i) = draws g2 (pos g2 + Suc i)"
    unfolding same_draws_def by blast
  then show "draws (g1\<lparr>pos := Suc (pos g1)\<rparr>) (pos (g1\<lparr>pos := Suc (pos g1)\<rparr>) + i)
      = draws (g2\<lparr>pos := Suc (pos g2)\<rparr>) (pos (g2\<lparr>pos := Suc (pos g2)\<rparr>) + i)"
    by simp
qed

lemma same_draws_first: "same_draws g1 g2 \<Longrightarrow> draws g1 (pos g1) = draws g2 (pos g2)"
  unfolding same_draws_def by (metis add.right_neutral)

lemma randint_agree:
  assumes "same_draws g1 g2"
  shows "fst (random_randint a b g1) = fst (random_randint a b g2)
    \<and> same_draws (snd (random_randint a b g1)) (snd (random_randint a b g2))"
  using assms same_draws_first [OF assms] same_draws_next [OF assms]
  by (simp add: random_randint_def)

lemma nsp_while_agree_Some:
  assumes "nsp_while n a b g1 = Some r1"
  shows "\<forall>g2. same_draws g1 g2 \<longrightarrow>
    (\<exists>r2. nsp_while n a b g2 = Some r2 \<and> fst r2 = fst r1 \<and> same_draws (snd r1) (snd r2))"
proof (rule nsp_while.raw_induct
    [where P = "\<lambda>n a b g1 r1. \<forall>g2. same_draws g1 g2 \<longrightarrow>
      (\<exists>r2. nsp_while n a b g2 = Some r2 \<and> fst r2 = fst r1 \<and> same_draws (snd r1) (snd r2))"])
  show "nsp_while n a b g1 = Some r1" by (rule assms)
next
  fix loop :: "int \<Rightarrow> int \<Rightarrow> int \<Rightarrow> rng \<Rightarrow> ((error + int) \<times> rng) option"
  fix n a b :: int and g1 :: rng and r1 :: "(error + int) \<times> rng"
  assume IH: "\<And>n a b g1 r1. loop n a b g1 = Some r1 \<Longrightarrow> \<forall>g2. same_draws g1 g2 \<longrightarrow>
      (\<exists>r2. nsp_while n a b g2 = Some r2 \<and> fst r2 = fst r1 \<and> same_draws (snd r1) (snd r2))"
  assume body: "(if b = a + 1
      then case random_randint 0 (n - 1) g1 of
           (Inl e, g') \<Rightarrow> Some (Inl e, g')
           | (Inr drawn, g') \<Rightarrow> loop n a drawn g'
      else Some (Inr b, g1)) = Some r1"
  show "\<forall>g2. same_draws g1 g2 \<longrightarrow>
      (\<exists>r2. nsp_while n a b g2 = Some r2 \<and> fst r2 = fst r1 \<and> same_draws (snd r1) (snd r2))"
  proof (intro allI impI)
    fix g2 assume sd: "same_draws g1 g2"
    show "\<exists>r2. nsp_while n a b g2 = Some r2 \<and> fst r2 = fst r1 \<and> same_draws (snd r1) (snd r2)"
    proof (cases "b = a + 1")
      case False
      with body have "r1 = (Inr b, g1)" by simp
      moreover from False have "nsp_while n a b g2 = Some (Inr b, g2)"
        by (subst nsp_while.simps) simp
      ultimately show ?thesis using sd by simp
    next
      case True
      show ?thesis
      proof (cases "n - 1 < 0")
        case neg: True
        with True body have "r1 = (Inl ValueError, g1)" by (simp add: random_randint_def)
        moreover from True neg have "nsp_while n a b g2 = Some (Inl ValueError, g2)"
          by (subst nsp_while.simps) (simp add: random_randint_def)
        ultimately show ?thesis using sd by simp
      next
        case nonneg: False
        let ?d = "int (draws g1 (pos g1) mod nat n)"
        from True nonneg body have run1: "loop n a ?d (g1\<lparr>pos := Suc (pos g1)\<rparr>) = Some r1"
          by (simp add: random_randint_def)
        from True nonneg same_draws_first [OF sd]
        have "nsp_while n a b g2 = nsp_while n a ?d (g2\<lparr>pos := Suc (pos g2)\<rparr>)"
          by (subst nsp_while.simps) (simp add: random_randint_def)
        with IH [OF run1, rule_format, OF same_draws_next [OF sd]] show ?thesis by simp
      qed
    qed
  qed
qed

lemma nsp_while_agree:
  assumes "same_draws g1 g2"
  shows "map_option fst (nsp_while n a b g1) = map_option fst (nsp_while n a b g2)"
proof (cases "nsp_while n a b g1")
  case (Some r1)
  from nsp_while_agree_Some [OF Some, rule_format, OF assms] Some show ?thesis by auto
next
  case None
  show ?thesis
  proof (cases "nsp_while n a b g2")
    case (Some r2)
    from nsp_while_agree_Some [OF Some, rule_format, OF same_draws_sym [OF assms]] None
    show ?thesis by auto
  next
    case None2: None
    with None show ?thesis by simp
  qed
qed

text \<open>
  Claim C9 asks that all stochastic choices come from a seedable source passed as a
  parameter, so that two builds with the same parameters are identical. The redraw
  loop of the negative sampling, run twice with the same arguments (four sentences,
  first index 0, second index 1), chooses index 3 from one state of the generator of
  the module and index 2 from another: the choice is fixed by the ambient state, which
  no parameter determines.
\<close>

theorem choice_depends_on_generator_state:
  "map_option fst (nsp_while 4 0 1 (const_rng 7)) = Some (Inr 3)
   \<and> map_option fst (nsp_while 4 0 1 (const_rng 2)) = Some (Inr 2)
   \<and> fst (random_randint 0 3 (const_rng 7)) \<noteq> fst (random_randint 0 3 (const_rng 2))"
proof -
  have 1: "nsp_while 4 0 1 (const_rng 7) = Some (Inr 3, const_rng 7\<lparr>pos := 1\<rparr>)"
    by (subst nsp_while.simps, simp add: random_randint_def const_rng_def,
        subst nsp_while.simps, simp)
  have 2: "nsp_while 4 0 1 (const_rng 2) = Some (Inr 2, const_rng 2\<lparr>pos := 1\<rparr>)"
    by (subst nsp_while.simps, simp add: random_randint_def const_rng_def,
        subst nsp_while.simps, simp)
  have 3: "fst (random_randint 0 3 (const_rng 7)) \<noteq> fst (random_randint 0 3 (const_rng 2))"
    by (simp add: random_randint_def const_rng_def)
  show ?thesis using 1 2 3 by simp
qed

text \<open>
  Claim C9 as amended. Two runs that start from states of the generator of the module
  \<open>random\<close> with the same draws (as after the same seed) make the same choices: a
  call of \<open>random.randint\<close>, the redraw loop and the selection of a negative pair give
  the same result, and two builds over the same corpus and configuration end alike.
\<close>

theorem same_draws_same_build:
  assumes "same_draws g1 g2"
  shows "fst (random_randint lo hi g1) = fst (random_randint lo hi g2)
    \<and> map_option fst (nsp_while n a b g1) = map_option fst (nsp_while n a b g2)
    \<and> map_option fst (select_false_nsp_sentences sentences g1)
        = map_option fst (select_false_nsp_sentences sentences g2)
    \<and> map_option fst (init reviews ds_from ds_to include_text g1)
        = map_option fst (init reviews ds_from ds_to include_text g2)"
proof -
  have "fst (random_randint lo hi g1) = fst (random_randint lo hi g2)"
    using randint_agree [OF assms] by blast
  moreover have "map_option fst (nsp_while n a b g1) = map_option fst (nsp_while n a b g2)"
    by (rule nsp_while_agree [OF assms])
  moreover have "map_option fst (select_false_nsp_sentences sentences g1)
      = map_option fst (select_false_nsp_sentences sentences g2)"
    by (simp add: select_as_written)
  moreover have "map_option fst (init reviews ds_from ds_to include_text g1)
      = map_option fst (init reviews ds_from ds_to include_text g2)"
    by (simp add: init_def prepare_dataset_raises)
  ultimately show ?thesis by blast
qed

theorem same_draws_same_build_witness:
  "same_draws (ramp_rng 0 3) (ramp_rng 3 0)
   \<and> ramp_rng 0 3 \<noteq> ramp_rng 3 0
   \<and> map_option fst (nsp_while 4 0 1 (ramp_rng 0 3)) = Some (Inr 3)
   \<and> map_option fst (nsp_while 4 0 1 (ramp_rng 3 0)) = Some (Inr 3)"
proof -
  have h: "same_draws (ramp_rng 0 3) (ramp_rng 3 0)"
    by (simp add: same_draws_def ramp_rng_def)
  have d: "ramp_rng 0 3 \<noteq> ramp_rng 3 0"
    by (simp add: ramp_rng_def)
  have 1: "nsp_while 4 0 1 (ramp_rng 0 3) = Some (Inr 3, ramp_rng 0 3\<lparr>pos := 4\<rparr>)"
    by (subst nsp_while.simps, simp add: random_randint_def ramp_rng_def,
        subst nsp_while.simps, simp)
  from same_draws_same_build [OF h, of 0 0 4 0 1 "[]" "[]" None None False]
  have "map_option fst (nsp_while 4 0 1 (ramp_rng 0 3)) = map_option fst (nsp_while 4 0 1 (ramp_rng 3 0))"
    by blast
  with 1 h d show ?thesis by simp
qed

end
